theory Spec2Isabelle
  imports Main "HOL-Library.Product_Lexorder"
begin

section \<open>Dates\<close>

text \<open>
  Python's \<open>datetime.date\<close>: a year, a month and a day. The store keeps a date as its
  ISO text \<open>YYYY-MM-DD\<close> and compares the texts; for the four-digit years of a Python
  date that is the lexicographic comparison of (year, month, day), which \<open>date_key\<close>
  gives.
\<close>

record date =
  year :: int
  month :: int
  day :: int

definition date_key :: "date \<Rightarrow> int \<times> int \<times> int" where
  "date_key d = (year d, month d, day d)"

definition date_less :: "date \<Rightarrow> date \<Rightarrow> bool" where
  "date_less a b = (date_key a < date_key b)"

definition date_le :: "date \<Rightarrow> date \<Rightarrow> bool" where
  "date_le a b = (date_key a \<le> date_key b)"

datatype error = IllegalMonthError | ValueError | OverflowError | IntegrityError

text \<open>
  The standard library, as the code uses it. \<open>calendar.isleap\<close> and the table
  \<open>calendar.mdays\<close>; \<open>calendar.monthrange\<close>, of which the code reads only the second
  component (the first, the weekday of the first day, cannot raise once the month is
  legal); the constructor \<open>date(year, month, day)\<close>; \<open>max\<close> and \<open>min\<close> of two dates,
  which return their first argument unless the second is strictly beyond it; and
  \<open>cur + timedelta(days=1)\<close>, which raises OverflowError beyond 9999-12-31.
\<close>

definition isleap :: "int \<Rightarrow> bool" where
  "isleap y = (y mod 4 = 0 \<and> (y mod 100 \<noteq> 0 \<or> y mod 400 = 0))"

definition mdays :: "int list" where
  "mdays = [0, 31, 28, 31, 30, 31, 30, 31, 31, 30, 31, 30, 31]"

definition days_in_month :: "int \<Rightarrow> int \<Rightarrow> int" where
  "days_in_month y m =
     (if 1 \<le> m \<and> m \<le> 12 then mdays ! nat m + (if m = 2 \<and> isleap y then 1 else 0) else 0)"

definition monthrange :: "int \<Rightarrow> int \<Rightarrow> error + int" where
  "monthrange y m =
     (if \<not> (1 \<le> m \<and> m \<le> 12) then Inl IllegalMonthError
      else Inr (mdays ! nat m + (if m = 2 \<and> isleap y then 1 else 0)))"

definition py_date :: "int \<Rightarrow> int \<Rightarrow> int \<Rightarrow> error + date" where
  "py_date y m d =
     (if 1 \<le> y \<and> y \<le> 9999 \<and> 1 \<le> m \<and> m \<le> 12 \<and> 1 \<le> d \<and> d \<le> days_in_month y m
      then Inr \<lparr>year = y, month = m, day = d\<rparr>
      else Inl ValueError)"

definition date_max :: "date \<Rightarrow> date \<Rightarrow> date" where
  "date_max a b = (if date_less a b then b else a)"

definition date_min :: "date \<Rightarrow> date \<Rightarrow> date" where
  "date_min a b = (if date_less b a then b else a)"

definition add_day :: "date \<Rightarrow> error + date" where
  "add_day d =
     (if day d < days_in_month (year d) (month d) then Inr (d\<lparr>day := day d + 1\<rparr>)
      else if month d < 12 then Inr (d\<lparr>month := month d + 1, day := 1\<rparr>)
      else if year d < 9999 then Inr (d\<lparr>year := year d + 1, month := 1, day := 1\<rparr>)
      else Inl OverflowError)"

text \<open>
  The generator \<open>daterange\<close>: the dates it yields, or the error its \<open>cur += step\<close>
  raises. The step is taken after each yield and before the next test, so the error is
  raised even when the date that overflows would not have been yielded.
\<close>

function daterange :: "date \<Rightarrow> date \<Rightarrow> error + date list" where
  "daterange cur d1 =
     (if date_le cur d1 then
        (case add_day cur of
           Inl err \<Rightarrow> Inl err
         | Inr nxt \<Rightarrow> (case daterange nxt d1 of Inl err \<Rightarrow> Inl err | Inr ds \<Rightarrow> Inr (cur # ds)))
      else Inr [])"
  by pat_completeness auto
termination
proof (relation "measures [\<lambda>(c, d1). nat (year d1 + 1 - year c),
                           \<lambda>(c, d1). nat (12 - month c),
                           \<lambda>(c, d1). nat (days_in_month (year c) (month c) - day c)]")
  show "wf (measures [\<lambda>(c, d1). nat (year d1 + 1 - year c),
                           \<lambda>(c, d1). nat (12 - month c),
                           \<lambda>(c, d1). nat (days_in_month (year c) (month c) - day c)])"
    by simp
next
  fix cur d1 nxt
  assume le: "date_le cur d1" and nx: "add_day cur = Inr nxt"
  from le have "year cur \<le> year d1"
    by (auto simp: date_le_def date_key_def)
  with nx show "((nxt, d1), (cur, d1)) \<in> measures [\<lambda>(c, d1). nat (year d1 + 1 - year c),
                           \<lambda>(c, d1). nat (12 - month c),
                           \<lambda>(c, d1). nat (days_in_month (year c) (month c) - day c)]"
    by (auto simp: add_day_def split: if_splits)
qed

declare daterange.simps [simp del]

section \<open>The store\<close>

type_synonym timestamp = int

text \<open>A row of the table \<open>vacations\<close>; \<open>row_id\<close> is the column \<open>id\<close> and \<open>note_text\<close> the column \<open>note\<close>.\<close>

record vacation =
  row_id :: int
  employee :: string
  start_date :: date
  end_date :: date
  status :: string
  note_text :: "string option"
  created_at :: timestamp
  approved_by :: "string option"
  approved_at :: "timestamp option"

text \<open>A row of the table \<open>employees\<close>; \<open>emp_id\<close> is the column \<open>id\<close>.\<close>

record employee_row =
  emp_id :: int
  name :: string
  active :: int

text \<open>
  The database: both tables in row order, and for each the largest id ever given
  (the AUTOINCREMENT sequence).
\<close>

record store =
  vacations :: "vacation list"
  vacations_seq :: int
  employees :: "employee_row list"
  employees_seq :: int

section \<open>Overlap query\<close>

definition statuses :: "bool \<Rightarrow> string list" where
  "statuses include_pending =
     (if include_pending then [''aprobada'', ''pendiente''] else [''aprobada''])"

definition overlap_row :: "string \<Rightarrow> date \<Rightarrow> date \<Rightarrow> bool \<Rightarrow> vacation \<Rightarrow> bool" where
  "overlap_row emp s e include_pending r =
     (employee r = emp \<and> status r \<in> set (statuses include_pending)
      \<and> \<not> (date_less (end_date r) s \<or> date_less e (start_date r)))"

definition has_overlap_for_employee :: "store \<Rightarrow> string \<Rightarrow> date \<Rightarrow> date \<Rightarrow> bool \<Rightarrow> bool" where
  "has_overlap_for_employee db emp s e include_pending =
     (let cnt = length (filter (overlap_row emp s e include_pending) (vacations db))
      in cnt > 0)"

section \<open>Employee roster\<close>

definition list_employees :: "store \<Rightarrow> bool \<Rightarrow> string list" where
  "list_employees db active_only =
     map name (if active_only then filter (\<lambda>e. active e = 1) (employees db) else employees db)"

text \<open>\<open>INSERT OR IGNORE\<close>: a name already in the table (the column is UNIQUE) is skipped.\<close>

definition add_employee :: "store \<Rightarrow> string \<Rightarrow> store" where
  "add_employee db n =
     (if n \<in> set (map name (employees db)) then db
      else db\<lparr>employees := employees db @ [\<lparr>emp_id = employees_seq db + 1, name = n, active = 1\<rparr>],
              employees_seq := employees_seq db + 1\<rparr>)"

definition set_employee_active :: "store \<Rightarrow> string \<Rightarrow> bool \<Rightarrow> store" where
  "set_employee_active db n a =
     db\<lparr>employees := map (\<lambda>e. if name e = n then e\<lparr>active := (if a then 1 else 0)\<rparr> else e)
                          (employees db)\<rparr>"

section \<open>Requests\<close>

text \<open>\<open>now\<close> is the store's CURRENT_TIMESTAMP at the insert.\<close>

definition create_request ::
  "store \<Rightarrow> string \<Rightarrow> date \<Rightarrow> date \<Rightarrow> string option \<Rightarrow> timestamp \<Rightarrow> store" where
  "create_request db emp s e nt now =
     db\<lparr>vacations := vacations db @
           [\<lparr>row_id = vacations_seq db + 1, employee = emp, start_date = s, end_date = e,
             status = ''pendiente'', note_text = nt, created_at = now,
             approved_by = None, approved_at = None\<rparr>],
        vacations_seq := vacations_seq db + 1\<rparr>"

text \<open>The CHECK constraint of the column \<open>status\<close>.\<close>

definition status_check :: "string \<Rightarrow> bool" where
  "status_check st = (st \<in> set [''pendiente'', ''aprobada'', ''rechazada''])"

text \<open>
  \<open>update_status\<close>, with \<open>now\<close> the value of \<open>datetime.utcnow()\<close>. The result is the
  exception raised, if any, and the store after the call. The constraint is checked on
  the rows the UPDATE writes; a failing statement is undone as a whole.
\<close>

definition update_status ::
  "store \<Rightarrow> int \<Rightarrow> string \<Rightarrow> string option \<Rightarrow> timestamp \<Rightarrow> error option \<times> store" where
  "update_status db vacation_id new_status approver now =
     (let at = (if new_status \<in> set [''aprobada'', ''rechazada''] then Some now else None);
          hit = filter (\<lambda>r. row_id r = vacation_id) (vacations db)
      in if hit \<noteq> [] \<and> \<not> status_check new_status then (Some IntegrityError, db)
         else (None,
               db\<lparr>vacations :=
                    map (\<lambda>r. if row_id r = vacation_id
                              then r\<lparr>status := new_status, approved_by := approver, approved_at := at\<rparr>
                              else r)
                        (vacations db)\<rparr>))"

text \<open>Python's truth value of an optional string and of an optional integer.\<close>

fun truthy_str :: "string option \<Rightarrow> bool" where
  "truthy_str None = False"
| "truthy_str (Some s) = (s \<noteq> [])"

fun truthy_int :: "int option \<Rightarrow> bool" where
  "truthy_int None = False"
| "truthy_int (Some n) = (n \<noteq> 0)"


text \<open>
  \<open>list_requests\<close>: the year and month tests compare the four-digit year and two-digit
  month that \<open>strftime\<close> takes from the stored date with the formatted arguments.
\<close>

definition month_filter :: "int \<Rightarrow> int \<Rightarrow> vacation \<Rightarrow> bool" where
  "month_filter y m r =
     (year (start_date r) = y \<and> (month (start_date r) = m \<or> month (end_date r) = m))"

definition list_requests ::
  "store \<Rightarrow> int option \<Rightarrow> int option \<Rightarrow> string option \<Rightarrow> vacation list" where
  "list_requests db yr mon st =
     (let rows1 = (if truthy_int yr \<and> truthy_int mon
                   then filter (month_filter (the yr) (the mon)) (vacations db)
                   else vacations db);
          rows2 = (if truthy_str st then filter (\<lambda>r. Some (status r) = st) rows1 else rows1)
      in sort_key (\<lambda>r. date_key (start_date r)) rows2)"

section \<open>Calendar matrix\<close>

type_synonym matrix = "string \<rightharpoonup> (int \<rightharpoonup> string option)"

definition empty_days :: "int \<Rightarrow> (int \<rightharpoonup> string option)" where
  "empty_days days = map_of (map (\<lambda>d. (d, None)) [1..days])"

definition init_matrix :: "string list \<Rightarrow> int \<Rightarrow> matrix" where
  "init_matrix emps days = map_of (map (\<lambda>emp. (emp, empty_days days)) emps)"

definition mark :: "string \<Rightarrow> string \<Rightarrow> matrix \<Rightarrow> date \<Rightarrow> matrix" where
  "mark emp st mx d =
     (case mx emp of None \<Rightarrow> mx | Some days \<Rightarrow> mx(emp \<mapsto> days(day d \<mapsto> Some st)))"

definition mark_row :: "date \<Rightarrow> date \<Rightarrow> matrix \<Rightarrow> vacation \<Rightarrow> error + matrix" where
  "mark_row start fin mx r =
     (let emp = employee r; s = start_date r; e = end_date r; st = status r;
          cur_s = date_max s start; cur_e = date_min e fin
      in case daterange cur_s cur_e of
           Inl err \<Rightarrow> Inl err
         | Inr ds \<Rightarrow> Inr (foldl (mark emp st) mx ds))"

fun mark_rows :: "date \<Rightarrow> date \<Rightarrow> matrix \<Rightarrow> vacation list \<Rightarrow> error + matrix" where
  "mark_rows start fin mx [] = Inr mx"
| "mark_rows start fin mx (r # rs) =
     (case mark_row start fin mx r of
        Inl err \<Rightarrow> Inl err
      | Inr mx' \<Rightarrow> mark_rows start fin mx' rs)"

definition touches :: "date \<Rightarrow> date \<Rightarrow> vacation \<Rightarrow> bool" where
  "touches start fin r = (\<not> (date_less (end_date r) start \<or> date_less fin (start_date r)))"

definition get_calendar_matrix :: "store \<Rightarrow> int \<Rightarrow> int \<Rightarrow> error + (matrix \<times> int)" where
  "get_calendar_matrix db yr mon =
     (let emps = list_employees db True
      in case monthrange yr mon of
           Inl err \<Rightarrow> Inl err
         | Inr days \<Rightarrow>
             (let mx = init_matrix emps days
              in case py_date yr mon 1 of
                   Inl err \<Rightarrow> Inl err
                 | Inr start \<Rightarrow>
                     (case py_date yr mon days of
                        Inl err \<Rightarrow> Inl err
                      | Inr fin \<Rightarrow>
                          (case mark_rows start fin mx (filter (touches start fin) (vacations db)) of
                             Inl err \<Rightarrow> Inl err
                           | Inr mx' \<Rightarrow> Inr (mx', days)))))"

section \<open>Specification vocabulary and example data\<close>

definition covers :: "vacation \<Rightarrow> date \<Rightarrow> bool" where
  "covers r dk = (date_le (start_date r) dk \<and> date_le dk (end_date r))"

definition covering :: "store \<Rightarrow> string \<Rightarrow> date \<Rightarrow> vacation list" where
  "covering db emp dk = filter (\<lambda>r. employee r = emp \<and> covers r dk) (vacations db)"

definition matrix_cell :: "matrix \<Rightarrow> string \<Rightarrow> int \<Rightarrow> string option option" where
  "matrix_cell mx emp k = (case mx emp of None \<Rightarrow> None | Some days \<Rightarrow> days k)"

definition paint :: "int \<Rightarrow> int \<Rightarrow> matrix \<Rightarrow> vacation \<Rightarrow> matrix" where
  "paint yr mon mx r =
     (case mx (employee r) of
        None \<Rightarrow> mx
      | Some days \<Rightarrow>
          mx(employee r \<mapsto>
             (\<lambda>k. if 1 \<le> k \<and> k \<le> days_in_month yr mon
                        \<and> covers r \<lparr>year = yr, month = mon, day = k\<rparr>
                  then Some (Some (status r)) else days k)))"

definition full_rows :: "int \<Rightarrow> matrix \<Rightarrow> bool" where
  "full_rows n mx = (\<forall>emp days. mx emp = Some days \<longrightarrow> dom days = {1..n})"

definition shown :: "store \<Rightarrow> string \<Rightarrow> date \<Rightarrow> string option" where
  "shown db emp dk =
     (let cs = covering db emp dk in if cs = [] then None else Some (status (last cs)))"

definition ymd :: "int \<Rightarrow> int \<Rightarrow> int \<Rightarrow> date" where
  "ymd y m d = \<lparr>year = y, month = m, day = d\<rparr>"

definition req :: "int \<Rightarrow> string \<Rightarrow> date \<Rightarrow> date \<Rightarrow> string \<Rightarrow> vacation" where
  "req i emp s e st =
     \<lparr>row_id = i, employee = emp, start_date = s, end_date = e, status = st,
      note_text = None, created_at = 0, approved_by = None, approved_at = None\<rparr>"

definition ex_db :: store where
  "ex_db =
     \<lparr>vacations =
        [req 1 ''ANA'' (ymd 2024 3 30) (ymd 2024 4 2) ''pendiente'',
         req 2 ''ANA'' (ymd 2024 3 1) (ymd 2024 3 5) ''aprobada'',
         req 3 ''ANA'' (ymd 2024 3 4) (ymd 2024 3 6) ''pendiente'',
         req 4 ''BEA'' (ymd 2024 3 10) (ymd 2024 3 12) ''rechazada'',
         req 5 ''ZOE'' (ymd 2024 3 15) (ymd 2024 3 16) ''aprobada'',
         req 6 ''BEA'' (ymd 2024 3 20) (ymd 2024 3 18) ''aprobada'',
         req 7 ''BEA'' (ymd 2023 12 30) (ymd 2024 1 2) ''aprobada''],
      vacations_seq = 7,
      employees =
        [\<lparr>emp_id = 1, name = ''ANA'', active = 1\<rparr>,
         \<lparr>emp_id = 2, name = ''BEA'', active = 1\<rparr>,
         \<lparr>emp_id = 3, name = ''ZOE'', active = 0\<rparr>],
      employees_seq = 3\<rparr>"

definition rejected_db :: store where
  "rejected_db =
     \<lparr>vacations = [req 4 ''BEA'' (ymd 2024 3 10) (ymd 2024 3 12) ''rechazada''],
      vacations_seq = 4, employees = [], employees_seq = 0\<rparr>"

definition find_row :: "store \<Rightarrow> int \<Rightarrow> vacation option" where
  "find_row db i = find (\<lambda>r. row_id r = i) (vacations db)"

section \<open>Verification\<close>

lemma daterange_stop: "\<not> date_le cur d1 \<Longrightarrow> daterange cur d1 = Inr []"
  by (simp add: daterange.simps)

lemma daterange_same_month:
  assumes "1 \<le> mon" "mon \<le> 12" "b \<le> days_in_month yr mon"
  shows "daterange \<lparr>year = yr, month = mon, day = a\<rparr> \<lparr>year = yr, month = mon, day = b\<rparr> =
     (if a \<le> b \<and> b = days_in_month yr mon \<and> mon = 12 \<and> 9999 \<le> yr then Inl OverflowError
      else Inr (map (\<lambda>k. \<lparr>year = yr, month = mon, day = k\<rparr>) [a..b]))"
  using assms
proof (induction "nat (b + 1 - a)" arbitrary: a)
  case 0
  then have "\<not> date_le \<lparr>year = yr, month = mon, day = a\<rparr> \<lparr>year = yr, month = mon, day = b\<rparr>"
    by (simp add: date_le_def date_key_def)
  with 0 show ?case by (simp add: daterange_stop)
next
  case (Suc n)
  then have ab: "a \<le> b" by simp
  then have le: "date_le \<lparr>year = yr, month = mon, day = a\<rparr> \<lparr>year = yr, month = mon, day = b\<rparr>"
    by (simp add: date_le_def date_key_def)
  show ?case
  proof (cases "a < days_in_month yr mon")
    case True
    have n: "n = nat (b + 1 - (a + 1))" using Suc.hyps(2) by simp
    have ih: "daterange \<lparr>year = yr, month = mon, day = a + 1\<rparr> \<lparr>year = yr, month = mon, day = b\<rparr> =
     (if a + 1 \<le> b \<and> b = days_in_month yr mon \<and> mon = 12 \<and> 9999 \<le> yr then Inl OverflowError
      else Inr (map (\<lambda>k. \<lparr>year = yr, month = mon, day = k\<rparr>) [a + 1..b]))"
      by (rule Suc.hyps(1)[OF n Suc.prems])
    have up: "[a..b] = a # [a + 1..b]" using ab by (simp add: upto_rec1)
    show ?thesis
      using True ab Suc.prems
      by (subst daterange.simps) (auto simp: le add_day_def ih up)
  next
    case False
    then have eq: "a = days_in_month yr mon" "b = a" using ab Suc.prems by simp_all
    have nle1: "\<not> date_le \<lparr>year = yr, month = mon + 1, day = 1\<rparr> \<lparr>year = yr, month = mon, day = x\<rparr>" for x
      by (simp add: date_le_def date_key_def)
    have nle2: "\<not> date_le \<lparr>year = yr + 1, month = 1, day = 1\<rparr> \<lparr>year = yr, month = m', day = x\<rparr>" for x m'
      by (simp add: date_le_def date_key_def)
    have refl: "date_le x x" for x by (simp add: date_le_def)
    show ?thesis
      using Suc.prems eq
      by (subst daterange.simps) (auto simp: refl add_day_def daterange_stop[OF nle1] daterange_stop[OF nle2])
  qed
qed

lemma foldl_mark:
  "foldl (mark emp st) mx ds =
     (case mx emp of
        None \<Rightarrow> mx
      | Some days \<Rightarrow> mx(emp \<mapsto> (\<lambda>k. if k \<in> day ` set ds then Some (Some st) else days k)))"
proof (induction ds arbitrary: mx)
  case Nil
  show ?case by (auto split: option.splits)
next
  case (Cons d ds)
  show ?case
  proof (cases "mx emp")
    case None
    then show ?thesis using Cons[of mx] by (simp add: mark_def)
  next
    case (Some days)
    have step: "mark emp st mx d = mx(emp \<mapsto> days(day d \<mapsto> Some st))"
      using Some by (simp add: mark_def)
    have "foldl (mark emp st) mx (d # ds) = foldl (mark emp st) (mx(emp \<mapsto> days(day d \<mapsto> Some st))) ds"
      by (simp add: step)
    also have "\<dots> = (mx(emp \<mapsto> days(day d \<mapsto> Some st)))
            (emp \<mapsto> (\<lambda>k. if k \<in> day ` set ds then Some (Some st) else (days(day d \<mapsto> Some st)) k))"
      by (subst Cons) (simp add: fun_eq_iff)
    also have "\<dots> = mx(emp \<mapsto> (\<lambda>k. if k \<in> day ` set (d # ds) then Some (Some st) else days k))"
      by (auto simp: fun_eq_iff)
    finally show ?thesis using Some by simp
  qed
qed

lemma days_in_month_ge: "1 \<le> mon \<Longrightarrow> mon \<le> 12 \<Longrightarrow> 28 \<le> days_in_month yr mon"
proof -
  assume "1 \<le> mon" "mon \<le> 12"
  then have "mon = 1 \<or> mon = 2 \<or> mon = 3 \<or> mon = 4 \<or> mon = 5 \<or> mon = 6 \<or> mon = 7
      \<or> mon = 8 \<or> mon = 9 \<or> mon = 10 \<or> mon = 11 \<or> mon = 12" by arith
  then show ?thesis
    by (auto simp: days_in_month_def mdays_def)
qed

lemma date_eta: "(x::date) = \<lparr>year = year x, month = month x, day = day x\<rparr>"
  by simp

lemma clip_start:
  assumes "1 \<le> dim" "touches \<lparr>year = yr, month = mon, day = 1\<rparr> \<lparr>year = yr, month = mon, day = dim\<rparr> r"
  shows "date_max (start_date r) \<lparr>year = yr, month = mon, day = 1\<rparr> =
           \<lparr>year = yr, month = mon,
            day = (if date_less (start_date r) \<lparr>year = yr, month = mon, day = 1\<rparr> then 1 else day (start_date r))\<rparr>"
  using assms
  by (cases "start_date r") (auto simp: date_max_def touches_def date_less_def date_key_def)

lemma clip_end:
  assumes "1 \<le> dim" "touches \<lparr>year = yr, month = mon, day = 1\<rparr> \<lparr>year = yr, month = mon, day = dim\<rparr> r"
  shows "date_min (end_date r) \<lparr>year = yr, month = mon, day = dim\<rparr> =
           \<lparr>year = yr, month = mon,
            day = (if date_less \<lparr>year = yr, month = mon, day = dim\<rparr> (end_date r) then dim else day (end_date r))\<rparr>"
  using assms
  by (cases "end_date r") (auto simp: date_min_def touches_def date_less_def date_key_def)

lemma date_less_iff:
  "date_less a b = (year a < year b \<or> (year a = year b \<and> (month a < month b \<or> (month a = month b \<and> day a < day b))))"
  by (auto simp: date_less_def date_key_def)

lemma date_le_iff:
  "date_le a b = (year a < year b \<or> (year a = year b \<and> (month a < month b \<or> (month a = month b \<and> day a \<le> day b))))"
  by (auto simp: date_le_def date_key_def)

lemma date_less_not_le: "date_less a b = (\<not> date_le b a)"
  by (auto simp: date_less_def date_le_def)

lemma in_window:
  "(date_le \<lparr>year = yr, month = mon, day = lo\<rparr> x \<and> date_le x \<lparr>year = yr, month = mon, day = hi\<rparr>)
     = (year x = yr \<and> month x = mon \<and> lo \<le> day x \<and> day x \<le> hi)"
  by (auto simp: date_le_iff)

lemma clip_lo:
  "date_le s \<lparr>year = yr, month = mon, day = dim\<rparr> \<Longrightarrow>
   ((if date_less s \<lparr>year = yr, month = mon, day = 1\<rparr> then 1 else day s) \<le> k)
     = (1 \<le> k \<and> date_le s \<lparr>year = yr, month = mon, day = k\<rparr>)"
  by (auto simp: date_le_iff date_less_iff)

lemma clip_hi:
  "date_le \<lparr>year = yr, month = mon, day = 1\<rparr> e \<Longrightarrow>
   (k \<le> (if date_less \<lparr>year = yr, month = mon, day = dim\<rparr> e then dim else day e))
     = (k \<le> dim \<and> date_le \<lparr>year = yr, month = mon, day = k\<rparr> e)"
  by (auto simp: date_le_iff date_less_iff)

lemma clip_hi_eq:
  "date_le \<lparr>year = yr, month = mon, day = 1\<rparr> e \<Longrightarrow>
   ((if date_less \<lparr>year = yr, month = mon, day = dim\<rparr> e then dim else day e) = dim)
     = date_le \<lparr>year = yr, month = mon, day = dim\<rparr> e"
  by (auto simp: date_le_iff date_less_iff)

lemma touches_iff: "touches start fin r = (date_le start (end_date r) \<and> date_le (start_date r) fin)"
  by (auto simp: touches_def date_less_not_le)

lemma mark_row_paint:
  assumes mon: "1 \<le> mon" "mon \<le> 12"
    and t: "touches \<lparr>year = yr, month = mon, day = 1\<rparr>
                    \<lparr>year = yr, month = mon, day = days_in_month yr mon\<rparr> r"
  shows "mark_row \<lparr>year = yr, month = mon, day = 1\<rparr>
                  \<lparr>year = yr, month = mon, day = days_in_month yr mon\<rparr> mx r =
           (if covers r \<lparr>year = yr, month = mon, day = days_in_month yr mon\<rparr> \<and> mon = 12 \<and> 9999 \<le> yr
            then Inl OverflowError
            else Inr (paint yr mon mx r))"
proof -
  define dim where "dim = days_in_month yr mon"
  define a where "a = (if date_less (start_date r) \<lparr>year = yr, month = mon, day = 1\<rparr> then 1
                       else day (start_date r))"
  define b where "b = (if date_less \<lparr>year = yr, month = mon, day = dim\<rparr> (end_date r) then dim
                       else day (end_date r))"
  have dim1: "1 \<le> dim" using days_in_month_ge[OF mon, of yr] by (simp add: dim_def)
  note t' = t[folded dim_def]
  have cs: "date_max (start_date r) \<lparr>year = yr, month = mon, day = 1\<rparr> = \<lparr>year = yr, month = mon, day = a\<rparr>"
    unfolding a_def by (rule clip_start[OF dim1 t'])
  have ce: "date_min (end_date r) \<lparr>year = yr, month = mon, day = dim\<rparr> = \<lparr>year = yr, month = mon, day = b\<rparr>"
    unfolding b_def by (rule clip_end[OF dim1 t'])
  from t' have t1: "date_le \<lparr>year = yr, month = mon, day = 1\<rparr> (end_date r)"
    and t2: "date_le (start_date r) \<lparr>year = yr, month = mon, day = dim\<rparr>"
    by (simp_all add: touches_iff)
  have lo: "(a \<le> k) = (1 \<le> k \<and> date_le (start_date r) \<lparr>year = yr, month = mon, day = k\<rparr>)" for k
    unfolding a_def by (rule clip_lo[OF t2])
  have hi: "(k \<le> b) = (k \<le> dim \<and> date_le \<lparr>year = yr, month = mon, day = k\<rparr> (end_date r))" for k
    unfolding b_def by (rule clip_hi[OF t1])
  have b_le: "b \<le> dim" using hi[of b] by simp
  have "(b = dim) = date_le \<lparr>year = yr, month = mon, day = dim\<rparr> (end_date r)"
    unfolding b_def by (rule clip_hi_eq[OF t1])
  then have ov: "(a \<le> b \<and> b = dim) = covers r \<lparr>year = yr, month = mon, day = dim\<rparr>"
    using lo[of dim] t2 dim1 by (auto simp: covers_def)
  have rng: "(a \<le> k \<and> k \<le> b) = (1 \<le> k \<and> k \<le> dim \<and> covers r \<lparr>year = yr, month = mon, day = k\<rparr>)" for k
    using lo[of k] hi[of k] by (auto simp: covers_def)
  have img: "day ` set (map (\<lambda>k. \<lparr>year = yr, month = mon, day = k\<rparr>) [a..b]) = {a..b}"
    by (auto simp: image_iff)
  have dr: "daterange \<lparr>year = yr, month = mon, day = a\<rparr> \<lparr>year = yr, month = mon, day = b\<rparr> =
     (if covers r \<lparr>year = yr, month = mon, day = dim\<rparr> \<and> mon = 12 \<and> 9999 \<le> yr then Inl OverflowError
      else Inr (map (\<lambda>k. \<lparr>year = yr, month = mon, day = k\<rparr>) [a..b]))"
  proof -
    have c: "(a \<le> b \<and> b = dim \<and> mon = 12 \<and> 9999 \<le> yr)
               = (covers r \<lparr>year = yr, month = mon, day = dim\<rparr> \<and> mon = 12 \<and> 9999 \<le> yr)"
      using ov by blast
    show ?thesis
      by (simp only: daterange_same_month[OF mon b_le[unfolded dim_def], of a, folded dim_def] c)
  qed
  have fm: "foldl (mark (employee r) (status r)) mx (map (\<lambda>k. \<lparr>year = yr, month = mon, day = k\<rparr>) [a..b])
             = paint yr mon mx r"
    unfolding foldl_mark img paint_def
    using rng by (auto simp: dim_def fun_eq_iff split: option.splits)
  show ?thesis
    unfolding mark_row_def Let_def dim_def[symmetric] cs ce dr
    by (simp add: fm)
qed

lemma mark_rows_paint:
  assumes mon: "1 \<le> mon" "mon \<le> 12"
    and t: "\<forall>r \<in> set rows. touches \<lparr>year = yr, month = mon, day = 1\<rparr>
                    \<lparr>year = yr, month = mon, day = days_in_month yr mon\<rparr> r"
  shows "mark_rows \<lparr>year = yr, month = mon, day = 1\<rparr>
                  \<lparr>year = yr, month = mon, day = days_in_month yr mon\<rparr> mx rows =
           (if mon = 12 \<and> 9999 \<le> yr
               \<and> (\<exists>r \<in> set rows. covers r \<lparr>year = yr, month = mon, day = days_in_month yr mon\<rparr>)
            then Inl OverflowError
            else Inr (foldl (paint yr mon) mx rows))"
  using t
proof (induction rows arbitrary: mx)
  case Nil
  show ?case by simp
next
  case (Cons r rows)
  from Cons.prems have tr: "touches \<lparr>year = yr, month = mon, day = 1\<rparr>
                    \<lparr>year = yr, month = mon, day = days_in_month yr mon\<rparr> r"
    and trs: "\<forall>r \<in> set rows. touches \<lparr>year = yr, month = mon, day = 1\<rparr>
                    \<lparr>year = yr, month = mon, day = days_in_month yr mon\<rparr> r"
    by simp_all
  show ?case
    unfolding mark_rows.simps mark_row_paint[OF mon tr]
    using Cons.IH[OF trs, of "paint yr mon mx r"] by auto
qed

lemma paint_dom: "dom (paint yr mon mx r) = dom mx"
  by (auto simp: paint_def split: option.splits)

lemma foldl_paint_dom: "dom (foldl (paint yr mon) mx rows) = dom mx"
  by (induction rows arbitrary: mx) (simp_all add: paint_dom)

lemma paint_full_rows:
  "full_rows (days_in_month yr mon) mx \<Longrightarrow> full_rows (days_in_month yr mon) (paint yr mon mx r)"
  unfolding full_rows_def paint_def
  by (auto split: option.splits if_splits simp: dom_def)

lemma foldl_paint_full_rows:
  "full_rows (days_in_month yr mon) mx \<Longrightarrow> full_rows (days_in_month yr mon) (foldl (paint yr mon) mx rows)"
  by (induction rows arbitrary: mx) (simp_all add: paint_full_rows)

lemma paint_cell:
  "matrix_cell (paint yr mon mx r) emp k =
     (if mx emp \<noteq> None \<and> employee r = emp \<and> 1 \<le> k \<and> k \<le> days_in_month yr mon
          \<and> covers r \<lparr>year = yr, month = mon, day = k\<rparr>
      then Some (Some (status r)) else matrix_cell mx emp k)"
  by (auto simp: paint_def matrix_cell_def split: option.splits)

lemma foldl_paint_cell:
  assumes k: "1 \<le> k" "k \<le> days_in_month yr mon" and emp: "mx emp \<noteq> None"
  shows "matrix_cell (foldl (paint yr mon) mx rows) emp k =
     (let cs = filter (\<lambda>r. employee r = emp \<and> covers r \<lparr>year = yr, month = mon, day = k\<rparr>) rows
      in if cs = [] then matrix_cell mx emp k else Some (Some (status (last cs))))"
proof (induction rows rule: rev_induct)
  case Nil
  show ?case by simp
next
  case (snoc r rows)
  have ne: "foldl (paint yr mon) mx rows emp \<noteq> None"
    using emp foldl_paint_dom[of yr mon mx rows] by (auto simp: dom_def)
  show ?case
    using k ne snoc.IH
    by (auto simp: paint_cell Let_def)
qed

lemma empty_days_apply: "empty_days n k = (if 1 \<le> k \<and> k \<le> n then Some None else None)"
  by (simp add: empty_days_def map_of_map_restrict restrict_map_def)

lemma init_matrix_apply:
  "init_matrix emps n emp = (if emp \<in> set emps then Some (empty_days n) else None)"
  by (simp add: init_matrix_def map_of_map_restrict restrict_map_def)

lemma init_matrix_dom: "dom (init_matrix emps n) = set emps"
  by (auto simp: init_matrix_apply dom_def)

lemma init_matrix_full: "full_rows n (init_matrix emps n)"
  by (auto simp: full_rows_def init_matrix_apply empty_days_apply dom_def split: if_splits)

lemma init_matrix_cell:
  "matrix_cell (init_matrix emps n) emp k =
     (if emp \<in> set emps \<and> 1 \<le> k \<and> k \<le> n then Some None else None)"
  by (simp add: matrix_cell_def init_matrix_apply empty_days_apply)

lemma monthrange_valid: "1 \<le> mon \<Longrightarrow> mon \<le> 12 \<Longrightarrow> monthrange yr mon = Inr (days_in_month yr mon)"
  by (simp add: monthrange_def days_in_month_def)

lemma covers_touches:
  assumes "1 \<le> k" "k \<le> dim" "covers r \<lparr>year = yr, month = mon, day = k\<rparr>"
  shows "touches \<lparr>year = yr, month = mon, day = 1\<rparr> \<lparr>year = yr, month = mon, day = dim\<rparr> r"
  using assms by (auto simp: covers_def touches_iff date_le_iff)

lemma get_calendar_matrix_valid:
  assumes yr: "1 \<le> yr" "yr \<le> 9999" and mon: "1 \<le> mon" "mon \<le> 12"
  shows "get_calendar_matrix db yr mon =
     (if mon = 12 \<and> 9999 \<le> yr
         \<and> (\<exists>r \<in> set (vacations db). covers r \<lparr>year = yr, month = mon, day = days_in_month yr mon\<rparr>)
      then Inl OverflowError
      else Inr (foldl (paint yr mon) (init_matrix (list_employees db True) (days_in_month yr mon))
                  (filter (touches \<lparr>year = yr, month = mon, day = 1\<rparr>
                                   \<lparr>year = yr, month = mon, day = days_in_month yr mon\<rparr>) (vacations db)),
                days_in_month yr mon))"
proof -
  define dim where "dim = days_in_month yr mon"
  have dim: "28 \<le> dim" unfolding dim_def by (rule days_in_month_ge[OF mon])
  have p1: "py_date yr mon 1 = Inr \<lparr>year = yr, month = mon, day = 1\<rparr>"
    using yr mon dim by (simp add: py_date_def dim_def)
  have p2: "py_date yr mon dim = Inr \<lparr>year = yr, month = mon, day = dim\<rparr>"
    using yr mon dim by (simp add: py_date_def dim_def)
  have t: "\<forall>r \<in> set (filter (touches \<lparr>year = yr, month = mon, day = 1\<rparr>
                                   \<lparr>year = yr, month = mon, day = days_in_month yr mon\<rparr>) (vacations db)).
             touches \<lparr>year = yr, month = mon, day = 1\<rparr>
                                   \<lparr>year = yr, month = mon, day = days_in_month yr mon\<rparr> r"
    by simp
  have ex: "(\<exists>r \<in> set (filter (touches \<lparr>year = yr, month = mon, day = 1\<rparr>
                                   \<lparr>year = yr, month = mon, day = dim\<rparr>) (vacations db)).
               covers r \<lparr>year = yr, month = mon, day = dim\<rparr>)
            = (\<exists>r \<in> set (vacations db). covers r \<lparr>year = yr, month = mon, day = dim\<rparr>)"
    using covers_touches[of dim dim _ yr mon] dim by auto
  show ?thesis
    unfolding get_calendar_matrix_def Let_def monthrange_valid[OF mon] sum.case
      p1 p2[unfolded dim_def] mark_rows_paint[OF mon t] ex[unfolded dim_def]
    by auto
qed

lemma covering_filter_touches:
  assumes "1 \<le> k" "k \<le> dim"
  shows "filter (\<lambda>r. employee r = emp \<and> covers r \<lparr>year = yr, month = mon, day = k\<rparr>)
           (filter (touches \<lparr>year = yr, month = mon, day = 1\<rparr> \<lparr>year = yr, month = mon, day = dim\<rparr>) rows)
         = filter (\<lambda>r. employee r = emp \<and> covers r \<lparr>year = yr, month = mon, day = k\<rparr>) rows"
  using covers_touches[OF assms] by (induction rows) auto

lemma get_calendar_matrix_ok:
  assumes yr: "1 \<le> yr" "yr \<le> 9999" and mon: "1 \<le> mon" "mon \<le> 12"
    and safe: "yr < 9999 \<or> mon < 12
               \<or> \<not> (\<exists>r \<in> set (vacations db). covers r \<lparr>year = 9999, month = 12, day = 31\<rparr>)"
  shows "get_calendar_matrix db yr mon =
      Inr (foldl (paint yr mon) (init_matrix (list_employees db True) (days_in_month yr mon))
                  (filter (touches \<lparr>year = yr, month = mon, day = 1\<rparr>
                                   \<lparr>year = yr, month = mon, day = days_in_month yr mon\<rparr>) (vacations db)),
                days_in_month yr mon)"
proof -
  have d: "days_in_month 9999 12 = 31" by (simp add: days_in_month_def mdays_def)
  have "\<not> (mon = 12 \<and> 9999 \<le> yr
         \<and> (\<exists>r \<in> set (vacations db). covers r \<lparr>year = yr, month = mon, day = days_in_month yr mon\<rparr>))"
    using safe yr d by auto
  then show ?thesis
    by (simp only: get_calendar_matrix_valid[OF yr mon] if_False)
qed

lemma final_cell:
  assumes k: "1 \<le> k" "k \<le> days_in_month yr mon" and emp: "emp \<in> set (list_employees db True)"
  shows "matrix_cell (foldl (paint yr mon) (init_matrix (list_employees db True) (days_in_month yr mon))
                  (filter (touches \<lparr>year = yr, month = mon, day = 1\<rparr>
                                   \<lparr>year = yr, month = mon, day = days_in_month yr mon\<rparr>) (vacations db))) emp k
         = Some (shown db emp \<lparr>year = yr, month = mon, day = k\<rparr>)"
proof -
  have ne: "init_matrix (list_employees db True) (days_in_month yr mon) emp \<noteq> None"
    using emp by (simp add: init_matrix_apply)
  show ?thesis
    unfolding foldl_paint_cell[of k yr mon "init_matrix (list_employees db True) (days_in_month yr mon)" emp, OF k ne]
      covering_filter_touches[OF k] shown_def covering_def
    using k emp by (simp add: init_matrix_cell Let_def)
qed

theorem get_calendar_matrix_cells:
  assumes yr: "1 \<le> yr" "yr \<le> 9999" and mon: "1 \<le> mon" "mon \<le> 12"
    and safe: "yr < 9999 \<or> mon < 12
               \<or> \<not> (\<exists>r \<in> set (vacations db). covers r \<lparr>year = 9999, month = 12, day = 31\<rparr>)"
  shows "\<exists>mx. get_calendar_matrix db yr mon = Inr (mx, days_in_month yr mon)
     \<and> (\<forall>emp days. mx emp = Some days \<longrightarrow> dom days = {1..days_in_month yr mon})
     \<and> (\<forall>emp k. emp \<in> set (list_employees db True) \<and> 1 \<le> k \<and> k \<le> days_in_month yr mon
            \<longrightarrow> matrix_cell mx emp k = Some (shown db emp \<lparr>year = yr, month = mon, day = k\<rparr>))
     \<and> (\<forall>pre r post k.
            vacations db = pre @ r # post
            \<and> employee r \<in> set (list_employees db True)
            \<and> 1 \<le> k \<and> k \<le> days_in_month yr mon
            \<and> covers r \<lparr>year = yr, month = mon, day = k\<rparr>
            \<and> (\<forall>r' \<in> set post. \<not> (employee r' = employee r
                                       \<and> covers r' \<lparr>year = yr, month = mon, day = k\<rparr>))
            \<longrightarrow> matrix_cell mx (employee r) k = Some (Some (status r)))"
proof -
  define mx where "mx = foldl (paint yr mon) (init_matrix (list_employees db True) (days_in_month yr mon))
                  (filter (touches \<lparr>year = yr, month = mon, day = 1\<rparr>
                                   \<lparr>year = yr, month = mon, day = days_in_month yr mon\<rparr>) (vacations db))"
  have res: "get_calendar_matrix db yr mon = Inr (mx, days_in_month yr mon)"
    unfolding mx_def by (rule get_calendar_matrix_ok[OF yr mon safe])
  have full: "\<forall>emp days. mx emp = Some days \<longrightarrow> dom days = {1..days_in_month yr mon}"
    using foldl_paint_full_rows[OF init_matrix_full, of yr mon "list_employees db True"]
    unfolding mx_def full_rows_def by blast
  have cell: "matrix_cell mx emp k = Some (shown db emp \<lparr>year = yr, month = mon, day = k\<rparr>)"
    if "emp \<in> set (list_employees db True)" "1 \<le> k" "k \<le> days_in_month yr mon" for emp k
    unfolding mx_def using that by (simp add: final_cell)
  have own: "matrix_cell mx (employee r) k = Some (Some (status r))"
    if v: "vacations db = pre @ r # post"
      and e: "employee r \<in> set (list_employees db True)"
      and k: "1 \<le> k" "k \<le> days_in_month yr mon"
      and c: "covers r \<lparr>year = yr, month = mon, day = k\<rparr>"
      and l: "\<forall>r' \<in> set post. \<not> (employee r' = employee r
                                       \<and> covers r' \<lparr>year = yr, month = mon, day = k\<rparr>)"
    for pre r post k
  proof -
    have "filter (\<lambda>r'. employee r' = employee r \<and> covers r' \<lparr>year = yr, month = mon, day = k\<rparr>) post = []"
      using l by (simp add: filter_empty_conv)
    then have "covering db (employee r) \<lparr>year = yr, month = mon, day = k\<rparr>
        = filter (\<lambda>r'. employee r' = employee r \<and> covers r' \<lparr>year = yr, month = mon, day = k\<rparr>) pre @ [r]"
      using c by (simp add: covering_def v)
    then have "shown db (employee r) \<lparr>year = yr, month = mon, day = k\<rparr> = Some (status r)"
      by (simp add: shown_def)
    then show ?thesis using cell[OF e k] by simp
  qed
  show ?thesis
  proof (intro exI[of _ mx] conjI allI impI)
    show "get_calendar_matrix db yr mon = Inr (mx, days_in_month yr mon)" by (rule res)
  next
    fix emp days
    assume "mx emp = Some days"
    with full show "dom days = {1..days_in_month yr mon}" by simp
  next
    fix emp k
    assume "emp \<in> set (list_employees db True) \<and> 1 \<le> k \<and> k \<le> days_in_month yr mon"
    then show "matrix_cell mx emp k = Some (shown db emp \<lparr>year = yr, month = mon, day = k\<rparr>)"
      by (simp add: cell)
  next
    fix pre r post k
    assume "vacations db = pre @ r # post
            \<and> employee r \<in> set (list_employees db True)
            \<and> 1 \<le> k \<and> k \<le> days_in_month yr mon
            \<and> covers r \<lparr>year = yr, month = mon, day = k\<rparr>
            \<and> (\<forall>r' \<in> set post. \<not> (employee r' = employee r
                                       \<and> covers r' \<lparr>year = yr, month = mon, day = k\<rparr>))"
    then show "matrix_cell mx (employee r) k = Some (Some (status r))"
      using own[of pre r post k] by simp
  qed
qed

lemmas ex_defs = ex_db_def rejected_db_def req_def ymd_def date_less_def date_le_def date_key_def

text \<open>
  Claim C1. \<open>has_overlap_for_employee\<close> is true exactly when some stored request of the
  employee is approved (or pending, when pending requests are included) and its inclusive
  range meets the queried one, that is, not (its end is before the start or its start is
  after the end). The two dates may come in either order. Requests that are rejected never
  make it true.
\<close>

theorem has_overlap_for_employee_iff:
  "(has_overlap_for_employee db emp s e include_pending \<longleftrightarrow>
      (\<exists>r \<in> set (vacations db).
         employee r = emp
         \<and> (status r = ''aprobada'' \<or> (include_pending \<and> status r = ''pendiente''))
         \<and> \<not> (date_less (end_date r) s \<or> date_less e (start_date r))))
   \<and> ((\<forall>r \<in> set (vacations db). employee r = emp \<longrightarrow> status r = ''rechazada'')
        \<longrightarrow> \<not> has_overlap_for_employee db emp s e include_pending)"
  unfolding has_overlap_for_employee_def Let_def length_greater_0_conv filter_empty_conv
  by (auto simp: overlap_row_def statuses_def)

text \<open>
  The statement at the example store: the approved request of ANA for 1 to 5 March meets
  5 to 9 March; from 6 March only her pending request does; a rejected request alone never
  counts.
\<close>

theorem has_overlap_for_employee_witness:
  "has_overlap_for_employee ex_db ''ANA'' (ymd 2024 3 5) (ymd 2024 3 9) False
   \<and> \<not> has_overlap_for_employee ex_db ''ANA'' (ymd 2024 3 6) (ymd 2024 3 9) False
   \<and> has_overlap_for_employee ex_db ''ANA'' (ymd 2024 3 6) (ymd 2024 3 9) True
   \<and> \<not> has_overlap_for_employee rejected_db ''BEA'' (ymd 2024 3 10) (ymd 2024 3 12) True"
proof -
  have a: "\<exists>r \<in> set (vacations ex_db).
         employee r = ''ANA''
         \<and> (status r = ''aprobada'' \<or> (False \<and> status r = ''pendiente''))
         \<and> \<not> (date_less (end_date r) (ymd 2024 3 5) \<or> date_less (ymd 2024 3 9) (start_date r))"
    by (simp add: ex_defs)
  have b: "\<not> (\<exists>r \<in> set (vacations ex_db).
         employee r = ''ANA''
         \<and> (status r = ''aprobada'' \<or> (False \<and> status r = ''pendiente''))
         \<and> \<not> (date_less (end_date r) (ymd 2024 3 6) \<or> date_less (ymd 2024 3 9) (start_date r)))"
    by (simp add: ex_defs)
  have c: "\<exists>r \<in> set (vacations ex_db).
         employee r = ''ANA''
         \<and> (status r = ''aprobada'' \<or> (True \<and> status r = ''pendiente''))
         \<and> \<not> (date_less (end_date r) (ymd 2024 3 6) \<or> date_less (ymd 2024 3 9) (start_date r))"
    by (simp add: ex_defs)
  have d: "\<forall>r \<in> set (vacations rejected_db). employee r = ''BEA'' \<longrightarrow> status r = ''rechazada''"
    by (simp add: ex_defs)
  show ?thesis
    using a b c d
      has_overlap_for_employee_iff[of ex_db "''ANA''" "ymd 2024 3 5" "ymd 2024 3 9" False]
      has_overlap_for_employee_iff[of ex_db "''ANA''" "ymd 2024 3 6" "ymd 2024 3 9" False]
      has_overlap_for_employee_iff[of ex_db "''ANA''" "ymd 2024 3 6" "ymd 2024 3 9" True]
      has_overlap_for_employee_iff[of rejected_db "''BEA''" "ymd 2024 3 10" "ymd 2024 3 12" True]
    by blast
qed

lemma update_rows: "\<forall>r \<in> set (map (\<lambda>r. if row_id r = vacation_id
                              then r\<lparr>status := st, approved_by := a, approved_at := at\<rparr>
                              else r) (vacations db)).
            row_id r = vacation_id \<longrightarrow> status r = st \<and> approved_by r = a \<and> approved_at r = at"
proof (intro ballI impI)
  fix r :: vacation
  assume i: "row_id r = vacation_id"
  assume "r \<in> set (map (\<lambda>r. if row_id r = vacation_id
                              then r\<lparr>status := st, approved_by := a, approved_at := at\<rparr>
                              else r) (vacations db))"
  then obtain r0 where r0: "r = (if row_id r0 = vacation_id
                              then r0\<lparr>status := st, approved_by := a, approved_at := at\<rparr>
                              else r0)"
    unfolding set_map by (elim imageE)
  show "status r = st \<and> approved_by r = a \<and> approved_at r = at"
  proof (cases "row_id r0 = vacation_id")
    case True
    with r0 show ?thesis by simp
  next
    case False
    with r0 i show ?thesis by simp
  qed
qed

text \<open>
  Claim C3, as amended. For an approver \<open>x\<close>, \<open>update_status\<close> with the status approved or
  rejected raises nothing and gives every request with that id the new status, the
  approver \<open>x\<close> and the approval time \<open>now\<close>, leaving the other requests as they
  were. With the status pending it sets the status, clears the approval time, and stores
  the approver it was given: the approver field is cleared only when no approver is
  passed.
\<close>

theorem update_status_stamps:
  "(new_status \<in> {''aprobada'', ''rechazada''} \<longrightarrow>
      update_status db vacation_id new_status (Some x) now =
        (None, db\<lparr>vacations :=
                    map (\<lambda>r. if row_id r = vacation_id
                              then r\<lparr>status := new_status, approved_by := Some x,
                                     approved_at := Some now\<rparr>
                              else r) (vacations db)\<rparr>)
      \<and> (\<forall>r \<in> set (vacations (snd (update_status db vacation_id new_status (Some x) now))).
            row_id r = vacation_id \<longrightarrow>
            status r = new_status \<and> approved_by r = Some x \<and> approved_at r = Some now))
   \<and> update_status db vacation_id ''pendiente'' approver now =
        (None, db\<lparr>vacations :=
                    map (\<lambda>r. if row_id r = vacation_id
                              then r\<lparr>status := ''pendiente'', approved_by := approver,
                                     approved_at := None\<rparr>
                              else r) (vacations db)\<rparr>)
   \<and> (\<forall>r \<in> set (vacations (snd (update_status db vacation_id ''pendiente'' approver now))).
         row_id r = vacation_id \<longrightarrow>
         status r = ''pendiente'' \<and> approved_by r = approver \<and> approved_at r = None)"
proof -
  have gen: "update_status db vacation_id st a now =
        (None, db\<lparr>vacations :=
                    map (\<lambda>r. if row_id r = vacation_id
                              then r\<lparr>status := st, approved_by := a, approved_at := at\<rparr>
                              else r) (vacations db)\<rparr>)"
    if "status_check st" "at = (if st \<in> set [''aprobada'', ''rechazada''] then Some now else None)"
    for st a at
    using that by (simp add: update_status_def Let_def)
  have sel: "vacations (snd (None :: error option, db\<lparr>vacations := rs\<rparr>)) = rs" for rs
    by simp
  have rows: "\<forall>r \<in> set (vacations (snd (None :: error option,
                 db\<lparr>vacations := map (\<lambda>r. if row_id r = vacation_id
                              then r\<lparr>status := st, approved_by := a, approved_at := at\<rparr>
                              else r) (vacations db)\<rparr>))).
            row_id r = vacation_id \<longrightarrow> status r = st \<and> approved_by r = a \<and> approved_at r = at"
    for st a at
    unfolding sel by (rule update_rows)
  have p: "status_check ''pendiente''" "None = (if ''pendiente'' \<in> set [''aprobada'', ''rechazada''] then Some now else None)"
    by (simp_all add: status_check_def)
  have q: "status_check new_status" "Some now = (if new_status \<in> set [''aprobada'', ''rechazada''] then Some now else None)"
    if "new_status \<in> {''aprobada'', ''rechazada''}"
    using that by (auto simp: status_check_def)
  show ?thesis
  proof (intro conjI impI)
    assume m: "new_status \<in> {''aprobada'', ''rechazada''}"
    show "update_status db vacation_id new_status (Some x) now =
        (None, db\<lparr>vacations :=
                    map (\<lambda>r. if row_id r = vacation_id
                              then r\<lparr>status := new_status, approved_by := Some x,
                                     approved_at := Some now\<rparr>
                              else r) (vacations db)\<rparr>)"
      by (rule gen[OF q[OF m]])
    show "\<forall>r \<in> set (vacations (snd (update_status db vacation_id new_status (Some x) now))).
            row_id r = vacation_id \<longrightarrow>
            status r = new_status \<and> approved_by r = Some x \<and> approved_at r = Some now"
      unfolding gen[OF q[OF m]] by (rule rows)
  next
    show "update_status db vacation_id ''pendiente'' approver now =
        (None, db\<lparr>vacations :=
                    map (\<lambda>r. if row_id r = vacation_id
                              then r\<lparr>status := ''pendiente'', approved_by := approver,
                                     approved_at := None\<rparr>
                              else r) (vacations db)\<rparr>)"
      by (rule gen[OF p])
    show "\<forall>r \<in> set (vacations (snd (update_status db vacation_id ''pendiente'' approver now))).
         row_id r = vacation_id \<longrightarrow>
         status r = ''pendiente'' \<and> approved_by r = approver \<and> approved_at r = None"
      unfolding gen[OF p] by (rule rows)
  qed
qed

text \<open>
  At the example store: approving request 1 as BOSS at time 99 stamps it; setting it
  back to pending with no approver clears both fields.
\<close>

theorem update_status_stamps_witness:
  "map_option (\<lambda>r. (status r, approved_by r, approved_at r))
     (find_row (snd (update_status ex_db 1 ''aprobada'' (Some ''BOSS'') 99)) 1)
     = Some (''aprobada'', Some ''BOSS'', Some 99)
   \<and> map_option (\<lambda>r. (status r, approved_by r, approved_at r))
     (find_row (snd (update_status ex_db 1 ''pendiente'' None 99)) 1)
     = Some (''pendiente'', None, None)"
proof -
  have m: "''aprobada'' \<in> {''aprobada'', ''rechazada''}" by simp
  have a: "update_status ex_db 1 ''aprobada'' (Some ''BOSS'') 99 =
        (None, ex_db\<lparr>vacations :=
                    map (\<lambda>r. if row_id r = 1
                              then r\<lparr>status := ''aprobada'', approved_by := Some ''BOSS'',
                                     approved_at := Some 99\<rparr>
                              else r) (vacations ex_db)\<rparr>)"
    using update_status_stamps[of "''aprobada''" ex_db 1 "''BOSS''" 99] m by blast
  have b: "update_status ex_db 1 ''pendiente'' None 99 =
        (None, ex_db\<lparr>vacations :=
                    map (\<lambda>r. if row_id r = 1
                              then r\<lparr>status := ''pendiente'', approved_by := None,
                                     approved_at := None\<rparr>
                              else r) (vacations ex_db)\<rparr>)"
    using update_status_stamps[of _ ex_db 1 _ 99 None] by blast
  show ?thesis
    unfolding a b by (simp add: find_row_def ex_db_def req_def)
qed

text \<open>
  The claim as written fails: setting request 1 to pending with an approver given leaves
  that approver in the approver field.
\<close>

theorem update_status_pending_keeps_approver:
  "map_option approved_by
     (find_row (snd (update_status ex_db 1 ''pendiente'' (Some ''BOSS'') 99)) 1)
     = Some (Some ''BOSS'')"
  by (simp add: update_status_def status_check_def Let_def find_row_def ex_db_def req_def)







end
